theory Spec2Isabelle
  imports Complex_Main "HOL-Library.FSet" "HOL-Library.AList"
begin

text \<open>
  Verification of the band checker: the band extractor \<open>parse_phone_bands\<close> and the
  compatibility evaluator \<open>compare_phone_to_carrier\<close> with its score
  \<open>calculate_compatibility_score\<close>, embedded from \<open>band_check_perplexity.py\<close>. The
  extractor of \<open>GUI expanded/band_check.py\<close> differs in its 5G pattern only and is embedded
  beside it. \<open>compare_phone_to_carrier\<close> is the same code in these two files and in
  \<open>Terminal version/band_check.py\<close>.
\<close>

section \<open>Characters and character classes\<close>

text \<open>
  A Python \<open>str\<close> is a sequence of code points. The text is modelled as a \<open>string\<close>, one
  \<open>char\<close> per code point, so the model covers the texts whose code points are below 256
  (ASCII and the Latin-1 block). The classes below are the ones Python's \<open>re\<close> module and
  \<open>str.strip\<close> use on \<open>str\<close> values, restricted to these code points.
\<close>

definition code :: "char \<Rightarrow> nat" where
  "code c = of_char c"

text \<open>\<open>\d\<close>: the decimal digits. Below 256 these are \<open>0\<close> to \<open>9\<close> only.\<close>

definition is_digit :: "char \<Rightarrow> bool" where
  "is_digit c = (48 \<le> code c \<and> code c \<le> 57)"

text \<open>\<open>\s\<close> and the characters removed by \<open>strip()\<close>: tab, line feed, vertical tab, form
  feed, carriage return, the separators 0x1C to 0x1F, space, NEL (0x85) and the no-break
  space (0xA0).\<close>

definition is_space :: "char \<Rightarrow> bool" where
  "is_space c = ((9 \<le> code c \<and> code c \<le> 13) \<or> (28 \<le> code c \<and> code c \<le> 32)
                 \<or> code c = 133 \<or> code c = 160)"

definition is_upper_ascii :: "char \<Rightarrow> bool" where
  "is_upper_ascii c = (65 \<le> code c \<and> code c \<le> 90)"

definition is_lower_ascii :: "char \<Rightarrow> bool" where
  "is_lower_ascii c = (97 \<le> code c \<and> code c \<le> 122)"

text \<open>\<open>\w\<close>: alphanumeric (alphabetic, decimal, digit or numeric) or the underscore. Beyond
  ASCII this includes the ordinal indicators, the micro sign, the superscript digits, the
  vulgar fractions and the accented letters of Latin-1.\<close>

definition is_word :: "char \<Rightarrow> bool" where
  "is_word c = (is_digit c \<or> is_upper_ascii c \<or> is_lower_ascii c \<or> code c = 95
                \<or> code c = 170 \<or> code c = 178 \<or> code c = 179 \<or> code c = 181
                \<or> code c = 185 \<or> code c = 186 \<or> (188 \<le> code c \<and> code c \<le> 190)
                \<or> (192 \<le> code c \<and> code c \<le> 214) \<or> (216 \<le> code c \<and> code c \<le> 246)
                \<or> 248 \<le> code c)"

text \<open>Lower-casing as \<open>re.IGNORECASE\<close> applies it to one character: the ASCII capitals and
  the Latin-1 capitals move up by 32, every other code point below 256 stays.\<close>

definition lower :: "char \<Rightarrow> char" where
  "lower c = (if is_upper_ascii c \<or> (192 \<le> code c \<and> code c \<le> 214) \<or> (216 \<le> code c \<and> code c \<le> 222)
              then char_of (code c + 32) else c)"

section \<open>Regular expressions with backtracking\<close>

text \<open>
  The patterns of the source are written in a small pattern language. An item of a
  character class is a single character, a range, \<open>\d\<close> or \<open>\s\<close>.
\<close>

datatype item = Ch char | Range char char | Digit | Space

datatype rx =
    Eps
  | One "item list"      \<comment> \<open>one character of a class, \<open>[...]\<close>; a literal is a class of one\<close>
  | Other "item list"    \<comment> \<open>one character outside a class, \<open>[^...]\<close>\<close>
  | Bnd                  \<comment> \<open>\<open>\b\<close>\<close>
  | Seq rx rx
  | Alt rx rx            \<comment> \<open>\<open>a|b\<close>, the left branch is tried first\<close>
  | Star rx              \<comment> \<open>greedy \<open>*\<close>\<close>
  | Grp rx               \<comment> \<open>the capturing group\<close>

definition Plus :: "rx \<Rightarrow> rx" where
  "Plus r = Seq r (Star r)"

definition Opt :: "rx \<Rightarrow> rx" where
  "Opt r = Alt r Eps"

definition Lit :: "char \<Rightarrow> rx" where
  "Lit c = One [Ch c]"

text \<open>A sequence of patterns, and a literal word.\<close>

fun Cat :: "rx list \<Rightarrow> rx" where
  "Cat [] = Eps"
| "Cat [r] = r"
| "Cat (r # rs) = Seq r (Cat rs)"

definition Word :: "string \<Rightarrow> rx" where
  "Word cs = Cat (map Lit cs)"

text \<open>Under \<open>re.IGNORECASE\<close> a literal or a range is compared after lower-casing both
  sides; \<open>\d\<close> and \<open>\s\<close> hold no cased character and are not affected.\<close>

fun item_has :: "bool \<Rightarrow> item \<Rightarrow> char \<Rightarrow> bool" where
  "item_has ic (Ch a) c = (if ic then lower c = lower a else c = a)"
| "item_has ic (Range a b) c =
     (if ic then list_ex (\<lambda>n. lower c = lower (char_of n)) [code a ..< Suc (code b)]
      else code a \<le> code c \<and> code c \<le> code b)"
| "item_has ic Digit c = is_digit c"
| "item_has ic Space c = is_space c"

definition in_class :: "bool \<Rightarrow> item list \<Rightarrow> char \<Rightarrow> bool" where
  "in_class ic items c = list_ex (\<lambda>i. item_has ic i c) items"

text \<open>
  A matcher state is the character before the current position (none at the start of the
  string), the rest of the subject, and the text captured by the group so far.
\<close>

type_synonym mstate = "char option \<times> string \<times> string option"

definition rest :: "mstate \<Rightarrow> string" where
  "rest s = fst (snd s)"

text \<open>\<open>\b\<close> holds where exactly one of the two neighbouring positions holds a word
  character; outside the string there is none.\<close>

definition at_boundary :: "char option \<Rightarrow> string \<Rightarrow> bool" where
  "at_boundary p cs =
     ((case p of None \<Rightarrow> False | Some c \<Rightarrow> is_word c) \<noteq> (case cs of [] \<Rightarrow> False | c # _ \<Rightarrow> is_word c))"

text \<open>
  \<open>ms ic r s\<close> lists the states in which \<open>r\<close> can end when started in \<open>s\<close>, in the order in
  which a backtracking matcher tries them: the head of the list is the match the engine
  reports. An iteration of \<open>Star\<close> that consumes nothing is not repeated.
\<close>

function ms :: "bool \<Rightarrow> rx \<Rightarrow> mstate \<Rightarrow> mstate list" where
  "ms ic Eps (p, cs, g) = [(p, cs, g)]"
| "ms ic (One items) (p, cs, g) =
     (case cs of [] \<Rightarrow> [] | c # cs' \<Rightarrow> if in_class ic items c then [(Some c, cs', g)] else [])"
| "ms ic (Other items) (p, cs, g) =
     (case cs of [] \<Rightarrow> [] | c # cs' \<Rightarrow> if in_class ic items c then [] else [(Some c, cs', g)])"
| "ms ic Bnd (p, cs, g) = (if at_boundary p cs then [(p, cs, g)] else [])"
| "ms ic (Seq a b) (p, cs, g) = concat (map (ms ic b) (ms ic a (p, cs, g)))"
| "ms ic (Alt a b) (p, cs, g) = ms ic a (p, cs, g) @ ms ic b (p, cs, g)"
| "ms ic (Star a) (p, cs, g) =
     concat (map (\<lambda>s'. if length (rest s') < length cs then ms ic (Star a) s' else [])
                 (ms ic a (p, cs, g))) @ [(p, cs, g)]"
| "ms ic (Grp a) (p, cs, g) =
     map (\<lambda>(p', cs', g'). (p', cs', Some (take (length cs - length cs') cs))) (ms ic a (p, cs, g))"
  by pat_completeness auto
termination
  by (relation "inv_image (less_than <*lex*> less_than) (\<lambda>(ic, r, s). (size r, length (rest s)))")
     (auto simp: rest_def)

definition first_match :: "bool \<Rightarrow> rx \<Rightarrow> mstate \<Rightarrow> mstate option" where
  "first_match ic r s = (case ms ic r s of [] \<Rightarrow> None | m # _ \<Rightarrow> Some m)"

text \<open>
  Scanning a subject from left to right, as \<open>re.finditer\<close> does: at each position the
  pattern is tried; a match is recorded with its text and its group and the scan goes on
  behind it; where the pattern fails (or matched the empty string) one character is passed
  over. None of the patterns of the source matches the empty string.
\<close>

datatype piece = Gap char | Hit string "string option"

function scan :: "bool \<Rightarrow> rx \<Rightarrow> char option \<Rightarrow> string \<Rightarrow> piece list" where
  "scan ic r p cs =
     (case first_match ic r (p, cs, None) of
        Some (p', cs', g) \<Rightarrow>
          if length cs' < length cs
          then Hit (take (length cs - length cs') cs) g # scan ic r p' cs'
          else Hit [] g # (case cs of [] \<Rightarrow> [] | c # cs'' \<Rightarrow> Gap c # scan ic r (Some c) cs'')
      | None \<Rightarrow> (case cs of [] \<Rightarrow> [] | c # cs'' \<Rightarrow> Gap c # scan ic r (Some c) cs''))"
  by pat_completeness auto
termination
  by (relation "measure (\<lambda>(ic, r, p, cs). length cs)") auto

declare scan.simps [simp del]

text \<open>\<open>re.findall(r, s)\<close>: for a pattern with one group the text of the group of every match
  (the empty string if the group took no part), otherwise the text of the match.\<close>

fun hits :: "piece list \<Rightarrow> string list" where
  "hits [] = []"
| "hits (Gap c # ps) = hits ps"
| "hits (Hit w g # ps) = w # hits ps"

fun groups :: "piece list \<Rightarrow> string list" where
  "groups [] = []"
| "groups (Gap c # ps) = groups ps"
| "groups (Hit w g # ps) = (case g of None \<Rightarrow> [] | Some x \<Rightarrow> x) # groups ps"

text \<open>\<open>re.search(r, s)\<close> as a truth value: some match exists.\<close>

definition re_search :: "bool \<Rightarrow> rx \<Rightarrow> string \<Rightarrow> bool" where
  "re_search ic r s = (hits (scan ic r None s) \<noteq> [])"

definition findall :: "bool \<Rightarrow> rx \<Rightarrow> string \<Rightarrow> string list" where
  "findall ic r s = hits (scan ic r None s)"

definition findall_group :: "bool \<Rightarrow> rx \<Rightarrow> string \<Rightarrow> string list" where
  "findall_group ic r s = groups (scan ic r None s)"

text \<open>\<open>re.sub(r, '', s)\<close>: what is left of the subject outside the matches.\<close>

fun gaps :: "piece list \<Rightarrow> string" where
  "gaps [] = []"
| "gaps (Gap c # ps) = c # gaps ps"
| "gaps (Hit w g # ps) = gaps ps"

definition sub_empty :: "bool \<Rightarrow> rx \<Rightarrow> string \<Rightarrow> string" where
  "sub_empty ic r s = gaps (scan ic r None s)"

section \<open>Strings and integers of Python\<close>

text \<open>\<open>s.strip()\<close> removes the white space at both ends.\<close>

definition strip :: "string \<Rightarrow> string" where
  "strip s = rev (dropWhile is_space (rev (dropWhile is_space s)))"

text \<open>\<open>text.split('\n')\<close>: the pieces between the line feeds; the result is never empty.\<close>

fun split_lines :: "string \<Rightarrow> string list" where
  "split_lines [] = [[]]"
| "split_lines (c # cs) =
     (if c = CHR 0x0A then [] # split_lines cs
      else (case split_lines cs of [] \<Rightarrow> [[c]] | l # ls \<Rightarrow> (c # l) # ls))"

text \<open>The exceptions of the model. \<open>int\<close> raises \<open>ValueError\<close> on a string that is no
  integer literal; \<open>TypeError\<close> stands for every exception that \<open>except ValueError\<close> does
  not catch.\<close>

datatype py_exn = ValueError | TypeError

definition digit_val :: "char \<Rightarrow> int" where
  "digit_val c = int (code c) - 48"

text \<open>The digits of a decimal literal: a digit first, then digits, each of which may be
  preceded by one underscore.\<close>

fun digits_tail :: "string \<Rightarrow> bool" where
  "digits_tail [] = True"
| "digits_tail (c # cs) =
     (if c = CHR ''_'' then (case cs of [] \<Rightarrow> False | d # ds \<Rightarrow> is_digit d \<and> digits_tail ds)
      else is_digit c \<and> digits_tail cs)"

definition digits_ok :: "string \<Rightarrow> bool" where
  "digits_ok u = (case u of [] \<Rightarrow> False | c # cs \<Rightarrow> is_digit c \<and> digits_tail cs)"

text \<open>
  \<open>int(s)\<close> for a string \<open>s\<close>: white space at both ends is ignored, a sign may come first,
  the digits follow. Anything else raises \<open>ValueError\<close>. So does a literal of more than
  \<open>max_str_digits\<close> digits when the interpreter has this limit (0 stands for no limit; the
  interpreter applies the limit only above 640 digits).
\<close>

definition py_int :: "nat \<Rightarrow> string \<Rightarrow> py_exn + int" where
  "py_int max_str_digits s =
     (let t = strip s;
          neg = (case t of [] \<Rightarrow> False | c # _ \<Rightarrow> c = CHR ''-'');
          u = (case t of [] \<Rightarrow> [] | c # cs \<Rightarrow> if c = CHR ''-'' \<or> c = CHR ''+'' then cs else t);
          ds = filter is_digit u
      in if \<not> digits_ok u then Inl ValueError
         else if 640 < length ds \<and> 0 < max_str_digits \<and> max_str_digits < length ds then Inl ValueError
         else Inr ((if neg then - 1 else 1) * foldl (\<lambda>v c. 10 * v + digit_val c) 0 ds))"

section \<open>The band extractor\<close>

text \<open>The patterns of \<open>parse_phone_bands\<close>, in the order in which the source uses them.\<close>

definition digits_rx :: rx where
  \<comment> \<open>\<open>\d+\<close>\<close>
  "digits_rx = Plus (One [Digit])"

definition nr_rx :: rx where
  \<comment> \<open>\<open>n(\d+(?:[/\s,]\d+)*)\<close>\<close>
  "nr_rx = Seq (Lit CHR ''n'')
             (Grp (Seq (Plus (One [Digit]))
                       (Star (Seq (One [Ch CHR ''/'', Space, Ch CHR '','']) (Plus (One [Digit]))))))"

definition nr_gui_rx :: rx where
  \<comment> \<open>\<open>n(\d+)(?:[a-zA-Z])?\<close>, the pattern of the file \<open>GUI expanded/band_check.py\<close>\<close>
  "nr_gui_rx = Cat [Lit CHR ''n'', Grp (Plus (One [Digit])),
                    Opt (One [Range CHR ''a'' CHR ''z'', Range CHR ''A'' CHR ''Z''])]"

definition lte_keyword_rx :: rx where
  \<comment> \<open>\<open>\b(4G|LTE|TD-LTE|FDD)\b\<close>\<close>
  "lte_keyword_rx =
     Cat [Bnd, Grp (Alt (Word ''4G'') (Alt (Word ''LTE'') (Alt (Word ''TD-LTE'') (Word ''FDD'')))), Bnd]"

definition b_digits_rx :: rx where
  \<comment> \<open>\<open>\bB\d+\<close>\<close>
  "b_digits_rx = Cat [Bnd, Lit CHR ''B'', Plus (One [Digit])]"

definition paren_rx :: rx where
  \<comment> \<open>\<open>\s*\([^)]*\)\<close>\<close>
  "paren_rx = Cat [Star (One [Space]), Lit CHR ''('', Star (Other [Ch CHR '')'']), Lit CHR '')'']"

definition lte_token_rx :: rx where
  \<comment> \<open>\<open>\bB?(\d+)(?:[abAB])?\b\<close>\<close>
  "lte_token_rx =
     Cat [Bnd, Opt (Lit CHR ''B''), Grp (Plus (One [Digit])),
          Opt (One [Ch CHR ''a'', Ch CHR ''b'', Ch CHR ''A'', Ch CHR ''B'']), Bnd]"

text \<open>
  The inner loop of the 5G part: every digit string is converted and added to the set. A
  \<open>ValueError\<close> is caught and the candidate is passed over; any other exception would leave
  the function.
\<close>

fun nr_add :: "nat \<Rightarrow> string list \<Rightarrow> int fset \<Rightarrow> py_exn + int fset" where
  "nr_add mx [] nr_bands = Inr nr_bands"
| "nr_add mx (band_str # remaining) nr_bands =
     (case py_int mx band_str of
        Inr v \<Rightarrow> nr_add mx remaining (finsert v nr_bands)
      | Inl ValueError \<Rightarrow> nr_add mx remaining nr_bands
      | Inl e \<Rightarrow> Inl e)"

text \<open>The outer loop of the 5G part: each captured group is cut into its digit strings.\<close>

fun nr_groups :: "nat \<Rightarrow> string list \<Rightarrow> int fset \<Rightarrow> py_exn + int fset" where
  "nr_groups mx [] nr_bands = Inr nr_bands"
| "nr_groups mx (match_group # remaining) nr_bands =
     (case nr_add mx (findall False digits_rx match_group) nr_bands of
        Inl e \<Rightarrow> Inl e
      | Inr nr_bands' \<Rightarrow> nr_groups mx remaining nr_bands')"

text \<open>The inner loop of the LTE part: a converted candidate is kept if it lies in 1 to 100.\<close>

fun lte_add :: "nat \<Rightarrow> string list \<Rightarrow> int fset \<Rightarrow> py_exn + int fset" where
  "lte_add mx [] lte_bands = Inr lte_bands"
| "lte_add mx (part # remaining) lte_bands =
     (case py_int mx part of
        Inr band_num \<Rightarrow>
          lte_add mx remaining (if 1 \<le> band_num \<and> band_num \<le> 100 then finsert band_num lte_bands else lte_bands)
      | Inl ValueError \<Rightarrow> lte_add mx remaining lte_bands
      | Inl e \<Rightarrow> Inl e)"

text \<open>The loop over the lines of the text.\<close>

fun lte_lines :: "nat \<Rightarrow> string list \<Rightarrow> int fset \<Rightarrow> py_exn + int fset" where
  "lte_lines mx [] lte_bands = Inr lte_bands"
| "lte_lines mx (line # remaining) lte_bands =
     (let line_stripped = strip line in
      if re_search True lte_keyword_rx line_stripped \<or> re_search True b_digits_rx line_stripped
      then (let clean_line = sub_empty False paren_rx line_stripped;
                potential_lte_parts = findall_group True lte_token_rx clean_line
            in case lte_add mx potential_lte_parts lte_bands of
                 Inl e \<Rightarrow> Inl e
               | Inr lte_bands' \<Rightarrow> lte_lines mx remaining lte_bands')
      else lte_lines mx remaining lte_bands)"

text \<open>\<open>sorted(list(s))\<close> for a set \<open>s\<close> of integers.\<close>

definition sorted_list :: "int fset \<Rightarrow> int list" where
  "sorted_list s = sorted_list_of_fset s"

text \<open>
  \<open>parse_phone_bands\<close> of \<open>band_check_perplexity.py\<close>. The first argument is the digit
  limit of the interpreter. The result is the pair (LTE bands, 5G bands).
\<close>

definition parse_phone_bands :: "nat \<Rightarrow> string \<Rightarrow> py_exn + (int list \<times> int list)" where
  "parse_phone_bands mx text =
     (case nr_groups mx (findall_group True nr_rx text) {||} of
        Inl e \<Rightarrow> Inl e
      | Inr nr_bands \<Rightarrow>
          (case lte_lines mx (split_lines text) {||} of
             Inl e \<Rightarrow> Inl e
           | Inr lte_bands \<Rightarrow> Inr (sorted_list lte_bands, sorted_list nr_bands)))"

text \<open>
  \<open>parse_phone_bands\<close> of \<open>GUI expanded/band_check.py\<close>: the same function with another 5G
  pattern, whose group is one digit string.
\<close>

definition parse_phone_bands_gui :: "nat \<Rightarrow> string \<Rightarrow> py_exn + (int list \<times> int list)" where
  "parse_phone_bands_gui mx text =
     (case nr_add mx (findall_group True nr_gui_rx text) {||} of
        Inl e \<Rightarrow> Inl e
      | Inr nr_bands \<Rightarrow>
          (case lte_lines mx (split_lines text) {||} of
             Inl e \<Rightarrow> Inl e
           | Inr lte_bands \<Rightarrow> Inr (sorted_list lte_bands, sorted_list nr_bands)))"

section \<open>The compatibility evaluator\<close>

text \<open>
  The value stored for a carrier in \<open>carrier_data\<close> is a dictionary with the keys
  \<open>'4G/LTE'\<close>, \<open>'Core LTE'\<close> and \<open>'5G'\<close>, each holding a set of band numbers; the report for
  a carrier is a dictionary with five keys, each holding a sorted list.
\<close>

record carrier_info =
  bands_4g_lte :: "int fset"
  bands_core_lte :: "int fset"
  bands_5g :: "int fset"

record carrier_results =
  supported_lte :: "int list"
  supported_nr :: "int list"
  missing_lte :: "int list"
  missing_nr :: "int list"
  missing_core_lte :: "int list"

text \<open>The body of the loop of \<open>compare_phone_to_carrier\<close>: the report for one carrier.\<close>

definition carrier_report :: "int fset \<Rightarrow> int fset \<Rightarrow> carrier_info \<Rightarrow> carrier_results" where
  "carrier_report phone_lte_bands phone_nr_bands bands_info =
     (let carrier_lte = bands_4g_lte bands_info;
          carrier_nr = bands_5g bands_info;
          carrier_core_lte = bands_core_lte bands_info;
          supported_lte' = phone_lte_bands |\<inter>| carrier_lte;
          supported_nr' = phone_nr_bands |\<inter>| carrier_nr;
          missing_lte' = carrier_lte |-| phone_lte_bands;
          missing_nr' = carrier_nr |-| phone_nr_bands;
          missing_core_lte' = carrier_core_lte |\<inter>| missing_lte'
      in \<lparr>supported_lte = sorted_list supported_lte',
          supported_nr = sorted_list supported_nr',
          missing_lte = sorted_list missing_lte',
          missing_nr = sorted_list missing_nr',
          missing_core_lte = sorted_list missing_core_lte'\<rparr>)"

text \<open>
  The dictionaries \<open>carrier_data\<close> and \<open>results\<close> are association lists in insertion order.
  \<open>results[carrier_name] = ...\<close> replaces the value of a key that is present and appends a
  new key at the end.
\<close>

fun compare_loop ::
  "int fset \<Rightarrow> int fset \<Rightarrow> (string \<times> carrier_info) list \<Rightarrow> (string \<times> carrier_results) list
   \<Rightarrow> (string \<times> carrier_results) list" where
  "compare_loop phone_lte_bands phone_nr_bands [] results = results"
| "compare_loop phone_lte_bands phone_nr_bands ((carrier_name, bands_info) # remaining) results =
     compare_loop phone_lte_bands phone_nr_bands remaining
       (AList.update carrier_name (carrier_report phone_lte_bands phone_nr_bands bands_info) results)"

definition compare_phone_to_carrier ::
  "int fset \<Rightarrow> int fset \<Rightarrow> (string \<times> carrier_info) list \<Rightarrow> (string \<times> carrier_results) list" where
  "compare_phone_to_carrier phone_lte_bands phone_nr_bands carrier_data =
     compare_loop phone_lte_bands phone_nr_bands carrier_data []"

text \<open>
  The score. The source computes it in floating point; every intermediate value is an
  integer far below \<open>2 ^ 53\<close> for lists that fit into memory, so the floating-point
  operations are exact and the score is modelled as a real number.
\<close>

definition calculate_compatibility_score :: "carrier_results \<Rightarrow> real" where
  "calculate_compatibility_score carrier_results =
     (let score = 0;
          score = score + real (length (supported_lte carrier_results)) * 2.0;
          score = score + real (length (supported_nr carrier_results)) * 1.0;
          score = score - real (length (missing_core_lte carrier_results)) * 2.0
      in max 0 score)"

text \<open>The carrier table of \<open>get_us_carriers\<close>.\<close>

definition verizon :: carrier_info where
  "verizon = \<lparr>bands_4g_lte = {|2, 4, 5, 13, 41, 46, 48, 66, 71|},
              bands_core_lte = {|2, 4, 13, 66|},
              bands_5g = {|2, 5, 66, 77, 260, 261|}\<rparr>"

definition att :: carrier_info where
  "att = \<lparr>bands_4g_lte = {|2, 4, 5, 12, 14, 17, 29, 30, 66, 71|},
          bands_core_lte = {|2, 4, 12, 17, 29|},
          bands_5g = {|2, 5, 66, 77, 260|}\<rparr>"

definition t_mobile :: carrier_info where
  "t_mobile = \<lparr>bands_4g_lte = {|2, 4, 5, 12, 25, 41, 66, 71|},
               bands_core_lte = {|2, 4, 12, 71|},
               bands_5g = {|2, 25, 38, 41, 71, 258, 260, 261|}\<rparr>"

definition get_us_carriers :: "(string \<times> carrier_info) list" where
  "get_us_carriers = [(''Verizon'', verizon), (''AT&T'', att), (''T-Mobile'', t_mobile)]"

section \<open>What a pattern can consume\<close>

text \<open>
  Two properties of a pattern, used to show which strings reach \<open>int\<close>: every character
  the pattern consumes satisfies \<open>P\<close>, and every character its group captures does.
\<close>

fun eats :: "(char \<Rightarrow> bool) \<Rightarrow> bool \<Rightarrow> rx \<Rightarrow> bool" where
  "eats P ic Eps = True"
| "eats P ic (One items) = (\<forall>c. in_class ic items c \<longrightarrow> P c)"
| "eats P ic (Other items) = (\<forall>c. in_class ic items c \<or> P c)"
| "eats P ic Bnd = True"
| "eats P ic (Seq a b) = (eats P ic a \<and> eats P ic b)"
| "eats P ic (Alt a b) = (eats P ic a \<and> eats P ic b)"
| "eats P ic (Star a) = eats P ic a"
| "eats P ic (Grp a) = eats P ic a"

fun grp_eats :: "(char \<Rightarrow> bool) \<Rightarrow> bool \<Rightarrow> rx \<Rightarrow> bool" where
  "grp_eats P ic (Seq a b) = (grp_eats P ic a \<and> grp_eats P ic b)"
| "grp_eats P ic (Alt a b) = (grp_eats P ic a \<and> grp_eats P ic b)"
| "grp_eats P ic (Star a) = grp_eats P ic a"
| "grp_eats P ic (Grp a) = eats P ic a"
| "grp_eats P ic r = True"

definition grp_in :: "(char \<Rightarrow> bool) \<Rightarrow> string option \<Rightarrow> bool" where
  "grp_in P g = (case g of None \<Rightarrow> True | Some x \<Rightarrow> list_all P x)"

text \<open>The least number of characters a match of a pattern consumes.\<close>

fun min_len :: "rx \<Rightarrow> nat" where
  "min_len Eps = 0"
| "min_len (One items) = 1"
| "min_len (Other items) = 1"
| "min_len Bnd = 0"
| "min_len (Seq a b) = min_len a + min_len b"
| "min_len (Alt a b) = min (min_len a) (min_len b)"
| "min_len (Star a) = 0"
| "min_len (Grp a) = min_len a"

text \<open>The code point of the lower-case form of a character.\<close>

definition lcode :: "char \<Rightarrow> nat" where
  "lcode c = (if is_upper_ascii c \<or> (192 \<le> code c \<and> code c \<le> 214) \<or> (216 \<le> code c \<and> code c \<le> 222)
              then code c + 32 else code c)"

section \<open>Properties of the matcher\<close>

lemma ms_eats:
  "eats P ic r \<Longrightarrow> s' \<in> set (ms ic r s) \<Longrightarrow> \<exists>w. rest s = w @ rest s' \<and> list_all P w"
proof (induction ic r s arbitrary: s' rule: ms.induct)
  case (1 ic p cs g)
  then show ?case by (simp add: rest_def)
next
  case (2 ic items p cs g)
  then show ?case by (cases cs) (auto simp: rest_def split: if_splits)
next
  case (3 ic items p cs g)
  then show ?case by (cases cs) (auto simp: rest_def split: if_splits)
next
  case (4 ic p cs g)
  then show ?case by (auto simp: rest_def split: if_splits)
next
  case (5 ic a b p cs g)
  from "5.prems" obtain s1 where s1: "s1 \<in> set (ms ic a (p, cs, g))" and s2: "s' \<in> set (ms ic b s1)"
    by auto
  from "5.IH"(1) [OF _ s1] "5.prems"(1) obtain w1 where w1: "rest (p, cs, g) = w1 @ rest s1" "list_all P w1"
    by auto
  from "5.IH"(2) [OF s1 _ s2] "5.prems"(1) obtain w2 where w2: "rest s1 = w2 @ rest s'" "list_all P w2"
    by auto
  show ?case using w1 w2 by (intro exI [of _ "w1 @ w2"]) simp
next
  case (6 ic a b p cs g)
  from "6.prems" consider "s' \<in> set (ms ic a (p, cs, g))" | "s' \<in> set (ms ic b (p, cs, g))"
    by auto
  then show ?case
  proof cases
    case 1
    from "6.IH"(1) [OF _ 1] "6.prems" show ?thesis by simp
  next
    case 2
    from "6.IH"(2) [OF _ 2] "6.prems" show ?thesis by simp
  qed
next
  case (7 ic a p cs g)
  show ?case
  proof (cases "s' = (p, cs, g)")
    case True
    then show ?thesis by simp
  next
    case False
    with "7.prems" obtain s1 where s1: "s1 \<in> set (ms ic a (p, cs, g))"
      and lt: "length (rest s1) < length cs" and s2: "s' \<in> set (ms ic (Star a) s1)"
      by (auto split: if_splits)
    from "7.IH"(1) [OF _ s1] "7.prems"(1) obtain w1 where w1: "rest (p, cs, g) = w1 @ rest s1" "list_all P w1"
      by auto
    from "7.IH"(2) [OF s1 lt _ s2] "7.prems"(1) obtain w2 where w2: "rest s1 = w2 @ rest s'" "list_all P w2"
      by auto
    show ?thesis using w1 w2 by (intro exI [of _ "w1 @ w2"]) simp
  qed
next
  case (8 ic a p cs g)
  from "8.prems" obtain s1 where s1: "s1 \<in> set (ms ic a (p, cs, g))" and r: "rest s' = rest s1"
    by (auto simp: rest_def)
  from "8.IH" [OF _ s1] "8.prems"(1) show ?case using r by auto
qed

lemma ms_grp:
  "grp_eats P ic r \<Longrightarrow> s' \<in> set (ms ic r s) \<Longrightarrow> grp_in P (snd (snd s)) \<Longrightarrow> grp_in P (snd (snd s'))"
proof (induction ic r s arbitrary: s' rule: ms.induct)
  case (1 ic p cs g)
  then show ?case by simp
next
  case (2 ic items p cs g)
  then show ?case by (cases cs) (auto split: if_splits)
next
  case (3 ic items p cs g)
  then show ?case by (cases cs) (auto split: if_splits)
next
  case (4 ic p cs g)
  then show ?case by (auto split: if_splits)
next
  case (5 ic a b p cs g)
  from "5.prems" obtain s1 where s1: "s1 \<in> set (ms ic a (p, cs, g))" and s2: "s' \<in> set (ms ic b s1)"
    by auto
  from "5.IH"(1) [OF _ s1] "5.prems" have "grp_in P (snd (snd s1))" by simp
  with "5.IH"(2) [OF s1 _ s2] "5.prems"(1) show ?case by simp
next
  case (6 ic a b p cs g)
  from "6.prems" consider "s' \<in> set (ms ic a (p, cs, g))" | "s' \<in> set (ms ic b (p, cs, g))"
    by auto
  then show ?case
  proof cases
    case 1
    from "6.IH"(1) [OF _ 1] "6.prems" show ?thesis by simp
  next
    case 2
    from "6.IH"(2) [OF _ 2] "6.prems" show ?thesis by simp
  qed
next
  case (7 ic a p cs g)
  show ?case
  proof (cases "s' = (p, cs, g)")
    case True
    then show ?thesis using "7.prems" by simp
  next
    case False
    with "7.prems" obtain s1 where s1: "s1 \<in> set (ms ic a (p, cs, g))"
      and lt: "length (rest s1) < length cs" and s2: "s' \<in> set (ms ic (Star a) s1)"
      by (auto split: if_splits)
    from "7.IH"(1) [OF _ s1] "7.prems" have "grp_in P (snd (snd s1))" by simp
    with "7.IH"(2) [OF s1 lt _ s2] "7.prems"(1) show ?thesis by simp
  qed
next
  case (8 ic a p cs g)
  from "8.prems" obtain p1 cs1 g1 where s1: "(p1, cs1, g1) \<in> set (ms ic a (p, cs, g))"
    and s': "s' = (p1, cs1, Some (take (length cs - length cs1) cs))"
    by auto
  from ms_eats [OF _ s1] "8.prems"(1) obtain w where w: "cs = w @ cs1" "list_all P w"
    by (auto simp: rest_def)
  then show ?case by (simp add: s' grp_in_def)
qed


lemma first_match_in: "first_match ic r s = Some m \<Longrightarrow> m \<in> set (ms ic r s)"
  by (auto simp: first_match_def split: list.splits)

text \<open>No pattern of the source matches the empty string, so a scan never meets an empty
  match.\<close>

lemma ms_min_len:
  "s' \<in> set (ms ic r s) \<Longrightarrow> length (rest s') + min_len r \<le> length (rest s)"
proof (induction ic r s arbitrary: s' rule: ms.induct)
  case (1 ic p cs g)
  then show ?case by simp
next
  case (2 ic items p cs g)
  then show ?case by (cases cs) (auto simp: rest_def split: if_splits)
next
  case (3 ic items p cs g)
  then show ?case by (cases cs) (auto simp: rest_def split: if_splits)
next
  case (4 ic p cs g)
  then show ?case by (auto split: if_splits)
next
  case (5 ic a b p cs g)
  from "5.prems" obtain s1 where s1: "s1 \<in> set (ms ic a (p, cs, g))" and s2: "s' \<in> set (ms ic b s1)"
    by auto
  from "5.IH"(1) [OF s1] "5.IH"(2) [OF s1 s2] show ?case by simp
next
  case (6 ic a b p cs g)
  from "6.prems" consider "s' \<in> set (ms ic a (p, cs, g))" | "s' \<in> set (ms ic b (p, cs, g))"
    by auto
  then show ?case
  proof cases
    case 1
    from "6.IH"(1) [OF 1] show ?thesis by simp
  next
    case 2
    from "6.IH"(2) [OF 2] show ?thesis by simp
  qed
next
  case (7 ic a p cs g)
  show ?case
  proof (cases "s' = (p, cs, g)")
    case True
    then show ?thesis by simp
  next
    case False
    with "7.prems" obtain s1 where s1: "s1 \<in> set (ms ic a (p, cs, g))"
      and lt: "length (rest s1) < length cs" and s2: "s' \<in> set (ms ic (Star a) s1)"
      by (auto split: if_splits)
    from "7.IH"(2) [OF s1 lt s2] lt show ?thesis by (simp add: rest_def)
  qed
next
  case (8 ic a p cs g)
  from "8.prems" obtain s1 where s1: "s1 \<in> set (ms ic a (p, cs, g))" and r: "rest s' = rest s1"
    by (auto simp: rest_def)
  from "8.IH" [OF s1] r show ?case by simp
qed

lemma patterns_consume:
  "0 < min_len digits_rx" "0 < min_len nr_rx" "0 < min_len nr_gui_rx" "0 < min_len lte_keyword_rx"
  "0 < min_len b_digits_rx" "0 < min_len paren_rx" "0 < min_len lte_token_rx"
  by (simp_all add: digits_rx_def nr_rx_def nr_gui_rx_def lte_keyword_rx_def b_digits_rx_def
      paren_rx_def lte_token_rx_def Plus_def Opt_def Lit_def Word_def)

lemma match_shorter:
  "0 < min_len r \<Longrightarrow> first_match ic r (p, cs, None) = Some (p', cs', g) \<Longrightarrow> length cs' < length cs"
  using ms_min_len [OF first_match_in, of ic r "(p, cs, None)" "(p', cs', g)"]
  by (simp add: rest_def)

lemma scan_none_nil:
  "first_match ic r (p, [], None) = None \<Longrightarrow> scan ic r p [] = []"
  by (subst scan.simps) simp

lemma scan_none_cons:
  "first_match ic r (p, c # cs, None) = None \<Longrightarrow> scan ic r p (c # cs) = Gap c # scan ic r (Some c) cs"
  by (subst scan.simps) simp

lemma scan_some_shorter:
  "first_match ic r (p, cs, None) = Some (p', cs', g) \<Longrightarrow> length cs' < length cs \<Longrightarrow>
   scan ic r p cs = Hit (take (length cs - length cs') cs) g # scan ic r p' cs'"
  by (subst scan.simps) simp

lemma scan_some_nil:
  "first_match ic r (p, [], None) = Some (p', cs', g) \<Longrightarrow> scan ic r p [] = [Hit [] g]"
  by (subst scan.simps) simp

lemma scan_some_cons:
  "first_match ic r (p, c # cs, None) = Some (p', cs', g) \<Longrightarrow> \<not> length cs' < length (c # cs) \<Longrightarrow>
   scan ic r p (c # cs) = Hit [] g # Gap c # scan ic r (Some c) cs"
  by (subst scan.simps) simp

lemma scan_hits:
  "eats P ic r \<Longrightarrow> w \<in> set (hits (scan ic r p cs)) \<Longrightarrow> list_all P w"
proof (induction ic r p cs rule: scan.induct)
  case (1 ic r p cs)
  show ?case
  proof (cases "first_match ic r (p, cs, None)")
    case None
    show ?thesis
    proof (cases cs)
      case Nil
      with None "1.prems"(2) show ?thesis by (simp add: scan_none_nil)
    next
      case (Cons c cs'')
      from "1.prems"(2) None Cons have "w \<in> set (hits (scan ic r (Some c) cs''))"
        by (simp add: scan_none_cons)
      with "1.IH"(1) [OF None Cons "1.prems"(1)] show ?thesis .
    qed
  next
    case (Some m)
    obtain p' cs' g where m: "m = (p', cs', g)" by (cases m)
    from first_match_in [OF Some] ms_eats [OF "1.prems"(1)] m
    obtain u where u: "cs = u @ cs'" "list_all P u"
      by (fastforce simp: rest_def)
    show ?thesis
    proof (cases "length cs' < length cs")
      case True
      from "1.prems"(2) Some [unfolded m] True
      have "w = take (length cs - length cs') cs \<or> w \<in> set (hits (scan ic r p' cs'))"
        by (simp add: scan_some_shorter)
      then show ?thesis
      proof
        assume "w = take (length cs - length cs') cs"
        with u show ?thesis by simp
      next
        assume "w \<in> set (hits (scan ic r p' cs'))"
        with "1.IH"(2) [OF Some _ _ True "1.prems"(1)] m show ?thesis by simp
      qed
    next
      case False
      show ?thesis
      proof (cases cs)
        case Nil
        with Some [unfolded m] "1.prems"(2) show ?thesis by (simp add: scan_some_nil)
      next
        case (Cons c cs'')
        from "1.prems"(2) Some [unfolded m] False Cons
        have "w = [] \<or> w \<in> set (hits (scan ic r (Some c) cs''))"
          by (simp add: scan_some_cons)
        then show ?thesis
        proof
          assume "w = []"
          then show ?thesis by simp
        next
          assume "w \<in> set (hits (scan ic r (Some c) cs''))"
          with "1.IH"(3) [OF Some _ _ False Cons "1.prems"(1)] m show ?thesis by simp
        qed
      qed
    qed
  qed
qed

lemma scan_groups:
  "grp_eats P ic r \<Longrightarrow> x \<in> set (groups (scan ic r p cs)) \<Longrightarrow> list_all P x"
proof (induction ic r p cs rule: scan.induct)
  case (1 ic r p cs)
  show ?case
  proof (cases "first_match ic r (p, cs, None)")
    case None
    show ?thesis
    proof (cases cs)
      case Nil
      with None "1.prems"(2) show ?thesis by (simp add: scan_none_nil)
    next
      case (Cons c cs'')
      from "1.prems"(2) None Cons have "x \<in> set (groups (scan ic r (Some c) cs''))"
        by (simp add: scan_none_cons)
      with "1.IH"(1) [OF None Cons "1.prems"(1)] show ?thesis .
    qed
  next
    case (Some m)
    obtain p' cs' g where m: "m = (p', cs', g)" by (cases m)
    from first_match_in [OF Some] ms_grp [OF "1.prems"(1), of m "(p, cs, None)"] m
    have g: "list_all P (case g of None \<Rightarrow> [] | Some x \<Rightarrow> x)"
      by (auto simp: grp_in_def split: option.splits)
    show ?thesis
    proof (cases "length cs' < length cs")
      case True
      from "1.prems"(2) Some [unfolded m] True
      have "x = (case g of None \<Rightarrow> [] | Some x \<Rightarrow> x) \<or> x \<in> set (groups (scan ic r p' cs'))"
        by (simp add: scan_some_shorter)
      then show ?thesis
      proof
        assume "x = (case g of None \<Rightarrow> [] | Some x \<Rightarrow> x)"
        with g show ?thesis by simp
      next
        assume "x \<in> set (groups (scan ic r p' cs'))"
        with "1.IH"(2) [OF Some _ _ True "1.prems"(1)] m show ?thesis by simp
      qed
    next
      case False
      show ?thesis
      proof (cases cs)
        case Nil
        with Some [unfolded m] "1.prems"(2) g show ?thesis by (simp add: scan_some_nil)
      next
        case (Cons c cs'')
        from "1.prems"(2) Some [unfolded m] False Cons
        have "x = (case g of None \<Rightarrow> [] | Some x \<Rightarrow> x) \<or> x \<in> set (groups (scan ic r (Some c) cs''))"
          by (simp add: scan_some_cons)
        then show ?thesis
        proof
          assume "x = (case g of None \<Rightarrow> [] | Some x \<Rightarrow> x)"
          with g show ?thesis by simp
        next
          assume "x \<in> set (groups (scan ic r (Some c) cs''))"
          with "1.IH"(3) [OF Some _ _ False Cons "1.prems"(1)] m show ?thesis by simp
        qed
      qed
    qed
  qed
qed

lemma findall_digits: "w \<in> set (findall False digits_rx s) \<Longrightarrow> list_all is_digit w"
  by (rule scan_hits [of is_digit False digits_rx w None s])
     (simp_all add: findall_def digits_rx_def Plus_def in_class_def)

lemma findall_nr_gui: "w \<in> set (findall_group True nr_gui_rx s) \<Longrightarrow> list_all is_digit w"
  by (rule scan_groups [of is_digit True nr_gui_rx w None s])
     (simp_all add: findall_group_def nr_gui_rx_def Plus_def Opt_def Lit_def in_class_def)

lemma py_int_cases: "py_int mx s = Inl ValueError \<or> (\<exists>v. py_int mx s = Inr v)"
  by (simp add: py_int_def Let_def)

lemma digits_value_nonneg:
  "0 \<le> a \<Longrightarrow> 0 \<le> foldl (\<lambda>v c. 10 * v + digit_val c) a (filter is_digit u)"
  by (induction u arbitrary: a) (auto simp: digit_val_def is_digit_def)

lemma set_strip: "set (strip s) \<subseteq> set s"
proof -
  have "set (dropWhile is_space (rev (dropWhile is_space s))) \<subseteq> set (rev (dropWhile is_space s))"
    by (rule set_dropWhileD [THEN subsetI])
  also have "\<dots> \<subseteq> set s"
    using set_dropWhileD [of _ is_space s] by auto
  finally show ?thesis by (simp add: strip_def)
qed

lemma minus_not_digit: "\<not> is_digit CHR ''-''"
  by (simp add: is_digit_def code_def)

lemma digit_val_nonneg: "is_digit c \<Longrightarrow> 0 \<le> digit_val c"
  by (simp add: digit_val_def is_digit_def)

lemma py_int_nonneg:
  assumes "list_all is_digit s" and "py_int mx s = Inr v"
  shows "0 \<le> v"
proof (cases "strip s")
  case Nil
  with assms(2) show ?thesis by (simp add: py_int_def digits_ok_def)
next
  case (Cons c cs)
  then have "c \<in> set s" using set_strip [of s] by auto
  with assms(1) have "is_digit c" by (simp add: list_all_iff)
  then have c: "c \<noteq> CHR ''-''" using minus_not_digit by auto
  from assms(2) Cons c \<open>is_digit c\<close> show ?thesis
    by (auto simp: py_int_def Let_def digits_value_nonneg digit_val_nonneg split: if_splits)
qed


lemma nr_add_inv:
  "\<forall>s\<in>set ss. list_all is_digit s \<Longrightarrow> \<forall>b. b |\<in>| acc \<longrightarrow> 0 \<le> b \<Longrightarrow>
   \<exists>r. nr_add mx ss acc = Inr r \<and> (\<forall>b. b |\<in>| r \<longrightarrow> 0 \<le> b)"
proof (induction ss arbitrary: acc)
  case Nil
  then show ?case by simp
next
  case (Cons s ss)
  from py_int_cases [of mx s] show ?case
  proof
    assume "py_int mx s = Inl ValueError"
    with Cons.IH [of acc] Cons.prems show ?thesis by simp
  next
    assume "\<exists>v. py_int mx s = Inr v"
    then obtain v where v: "py_int mx s = Inr v" ..
    with Cons.prems(1) py_int_nonneg [of s mx v] have "0 \<le> v" by simp
    with Cons.IH [of "finsert v acc"] Cons.prems v show ?thesis by simp
  qed
qed

lemma nr_groups_inv:
  "\<forall>b. b |\<in>| acc \<longrightarrow> 0 \<le> b \<Longrightarrow>
   \<exists>r. nr_groups mx gs acc = Inr r \<and> (\<forall>b. b |\<in>| r \<longrightarrow> 0 \<le> b)"
proof (induction gs arbitrary: acc)
  case Nil
  then show ?case by simp
next
  case (Cons g gs)
  have "\<forall>s\<in>set (findall False digits_rx g). list_all is_digit s"
    by (simp add: findall_digits)
  from nr_add_inv [OF this Cons.prems, of mx]
  obtain r where r: "nr_add mx (findall False digits_rx g) acc = Inr r" "\<forall>b. b |\<in>| r \<longrightarrow> 0 \<le> b"
    by auto
  with Cons.IH [of r] show ?case by simp
qed

lemma lte_add_inv:
  "\<forall>b. b |\<in>| acc \<longrightarrow> 1 \<le> b \<and> b \<le> 100 \<Longrightarrow>
   \<exists>r. lte_add mx ps acc = Inr r \<and> (\<forall>b. b |\<in>| r \<longrightarrow> 1 \<le> b \<and> b \<le> 100)"
proof (induction ps arbitrary: acc)
  case Nil
  then show ?case by simp
next
  case (Cons s ps)
  from py_int_cases [of mx s] show ?case
  proof
    assume "py_int mx s = Inl ValueError"
    with Cons.IH [of acc] Cons.prems show ?thesis by simp
  next
    assume "\<exists>v. py_int mx s = Inr v"
    then obtain v where v: "py_int mx s = Inr v" ..
    show ?thesis
    proof (cases "1 \<le> v \<and> v \<le> 100")
      case True
      with Cons.IH [of "finsert v acc"] Cons.prems v show ?thesis by simp
    next
      case False
      with Cons.IH [of acc] Cons.prems v show ?thesis by auto
    qed
  qed
qed

lemma lte_lines_inv:
  "\<forall>b. b |\<in>| acc \<longrightarrow> 1 \<le> b \<and> b \<le> 100 \<Longrightarrow>
   \<exists>r. lte_lines mx ls acc = Inr r \<and> (\<forall>b. b |\<in>| r \<longrightarrow> 1 \<le> b \<and> b \<le> 100)"
proof (induction ls arbitrary: acc)
  case Nil
  then show ?case by simp
next
  case (Cons l ls)
  let ?parts = "findall_group True lte_token_rx (sub_empty False paren_rx (strip l))"
  from lte_add_inv [OF Cons.prems, of mx ?parts]
  obtain r where r: "lte_add mx ?parts acc = Inr r" "\<forall>b. b |\<in>| r \<longrightarrow> 1 \<le> b \<and> b \<le> 100"
    by auto
  with Cons.IH [of r] Cons.IH [of acc] Cons.prems show ?case by (simp add: Let_def)
qed

lemma parse_result:
  "\<exists>l n. parse_phone_bands mx text = Inr (sorted_list l, sorted_list n)
     \<and> (\<forall>b. b |\<in>| l \<longrightarrow> 1 \<le> b \<and> b \<le> 100) \<and> (\<forall>b. b |\<in>| n \<longrightarrow> 0 \<le> b)"
proof -
  from nr_groups_inv [of "{||}" mx "findall_group True nr_rx text"]
  obtain n where n: "nr_groups mx (findall_group True nr_rx text) {||} = Inr n" "\<forall>b. b |\<in>| n \<longrightarrow> 0 \<le> b"
    by auto
  from lte_lines_inv [of "{||}" mx "split_lines text"]
  obtain l where l: "lte_lines mx (split_lines text) {||} = Inr l" "\<forall>b. b |\<in>| l \<longrightarrow> 1 \<le> b \<and> b \<le> 100"
    by auto
  from n l show ?thesis by (auto simp: parse_phone_bands_def)
qed

lemma parse_gui_result:
  "\<exists>l n. parse_phone_bands_gui mx text = Inr (sorted_list l, sorted_list n)
     \<and> (\<forall>b. b |\<in>| l \<longrightarrow> 1 \<le> b \<and> b \<le> 100) \<and> (\<forall>b. b |\<in>| n \<longrightarrow> 0 \<le> b)"
proof -
  have "\<forall>s\<in>set (findall_group True nr_gui_rx text). list_all is_digit s"
    by (simp add: findall_nr_gui)
  from nr_add_inv [OF this, of "{||}" mx]
  obtain n where n: "nr_add mx (findall_group True nr_gui_rx text) {||} = Inr n" "\<forall>b. b |\<in>| n \<longrightarrow> 0 \<le> b"
    by auto
  from lte_lines_inv [of "{||}" mx "split_lines text"]
  obtain l where l: "lte_lines mx (split_lines text) {||} = Inr l" "\<forall>b. b |\<in>| l \<longrightarrow> 1 \<le> b \<and> b \<le> 100"
    by auto
  from n l show ?thesis by (auto simp: parse_phone_bands_gui_def)
qed

section \<open>Properties of the evaluator\<close>

lemma sorted_list_set: "fset_of_list (sorted_list s) = s"
  by (simp add: sorted_list_def)

lemma sorted_list_strict: "sorted_wrt (<) (sorted_list s)"
  by (simp add: sorted_list_def sorted_list_of_fset.rep_eq)

lemma sorted_list_empty: "sorted_list {||} = []"
  by (simp add: sorted_list_def sorted_list_of_fset.rep_eq)

lemma update_fresh: "k \<notin> fst ` set ps \<Longrightarrow> AList.update k v ps = ps @ [(k, v)]"
  by (induction ps) auto

lemma compare_loop_distinct:
  "distinct (map fst cd) \<Longrightarrow> fst ` set acc \<inter> fst ` set cd = {} \<Longrightarrow>
   compare_loop l n cd acc = acc @ map (\<lambda>(k, i). (k, carrier_report l n i)) cd"
proof (induction cd arbitrary: acc)
  case Nil
  then show ?case by simp
next
  case (Cons a cd)
  obtain k i where a: "a = (k, i)" by (cases a)
  have fresh: "k \<notin> fst ` set acc" using Cons.prems(2) a by auto
  have d: "distinct (map fst cd)" using Cons.prems(1) by simp
  have disj: "fst ` set (acc @ [(k, carrier_report l n i)]) \<inter> fst ` set cd = {}"
    using Cons.prems a by auto
  show ?case
    using Cons.IH [OF d disj] by (simp add: a update_fresh [OF fresh])
qed

lemma compare_map:
  "distinct (map fst cd) \<Longrightarrow>
   compare_phone_to_carrier l n cd = map (\<lambda>(k, i). (k, carrier_report l n i)) cd"
  by (simp add: compare_phone_to_carrier_def compare_loop_distinct)

lemma map_of_report:
  "distinct (map fst cd) \<Longrightarrow> (k, i) \<in> set cd \<Longrightarrow>
   map_of (map (\<lambda>(k, i). (k, f i)) cd) k = Some (f i)"
  by (induction cd) (auto simp: rev_image_eqI)

lemma compare_lookup:
  "distinct (map fst cd) \<Longrightarrow> (k, i) \<in> set cd \<Longrightarrow>
   map_of (compare_phone_to_carrier l n cd) k = Some (carrier_report l n i)"
  by (simp add: compare_map map_of_report)

lemma keys_update: "fst ` set (AList.update k v ps) = insert k (fst ` set ps)"
  by (induction ps) auto

lemma compare_loop_keys:
  "fst ` set (compare_loop l n cd acc) = fst ` set acc \<union> fst ` set cd"
proof (induction cd arbitrary: acc)
  case Nil
  then show ?case by simp
next
  case (Cons a cd)
  obtain k i where a: "a = (k, i)" by (cases a)
  show ?case by (simp add: a Cons.IH keys_update)
qed



lemma us_distinct: "distinct (map fst get_us_carriers)"
  by (simp add: get_us_carriers_def)

lemma set_sorted_list: "set (sorted_list s) = fset s"
  by (simp add: sorted_list_def)

section \<open>Rules for evaluation\<close>

text \<open>Equations that let the simplifier run the definitions on a concrete text quickly.\<close>

lemma code_lower: "code (lower c) = lcode c"
  by (auto simp: lower_def lcode_def code_def is_upper_ascii_def)

lemma same_lower: "(lower c = lower a) = (lcode c = lcode a)"
  by (metis code_lower code_def of_char_eq_iff)

lemma lcode_char_of:
  "n < 256 \<Longrightarrow> lcode (char_of n) =
     (if (65 \<le> n \<and> n \<le> 90) \<or> (192 \<le> n \<and> n \<le> 214) \<or> (216 \<le> n \<and> n \<le> 222) then n + 32 else n)"
  by (simp add: lcode_def code_def is_upper_ascii_def)

lemma is_word_fast:
  "is_word c = (let n = code c in
     if n < 65 then 48 \<le> n \<and> n \<le> 57
     else if n \<le> 122 then n \<le> 90 \<or> n = 95 \<or> 97 \<le> n
     else if n < 192 then n = 170 \<or> n = 178 \<or> n = 179 \<or> n = 181 \<or> n = 185 \<or> n = 186
                          \<or> (188 \<le> n \<and> n \<le> 190)
     else n \<noteq> 215 \<and> n \<noteq> 247)"
  by (auto simp: is_word_def is_digit_def is_upper_ascii_def is_lower_ascii_def Let_def)

lemma is_space_fast:
  "is_space c = (let n = code c in
     if n \<le> 32 then 9 \<le> n \<and> (n \<le> 13 \<or> 28 \<le> n) else n = 133 \<or> n = 160)"
  by (auto simp: is_space_def Let_def)

lemma is_digit_fast: "is_digit c = (let n = code c in 48 \<le> n \<and> n \<le> 57)"
  by (simp add: is_digit_def Let_def)

lemma lcode_fast:
  "lcode c = (let n = code c in
     if n < 65 then n else if n \<le> 90 then n + 32 else if n < 192 then n
     else if n \<le> 222 \<and> n \<noteq> 215 then n + 32 else n)"
  by (auto simp: lcode_def is_upper_ascii_def Let_def)

lemma sorted_list_finsert: "x |\<notin>| A \<Longrightarrow> sorted_list (finsert x A) = insort x (sorted_list A)"
  by (simp add: sorted_list_def sorted_list_of_fset.rep_eq)

lemmas char_eval = is_digit_fast is_space_fast is_word_fast code_def same_lower lcode_fast
  lcode_char_of in_class_def at_boundary_def

lemmas rx_eval = Plus_def Opt_def Lit_def Word_def first_match_def rest_def scan.simps
  findall_def findall_group_def sub_empty_def re_search_def
  digits_rx_def nr_rx_def nr_gui_rx_def lte_keyword_rx_def b_digits_rx_def paren_rx_def
  lte_token_rx_def

lemmas py_eval = strip_def py_int_def digits_ok_def digit_val_def
  sorted_list_empty sorted_list_finsert parse_phone_bands_def parse_phone_bands_gui_def

section \<open>The functions on concrete inputs\<close>

lemma eval_slash: "parse_phone_bands mx ''n1/2/3 5G, B41 LTE'' = Inr ([2, 3, 41], [1, 2, 3, 5])"
  by (simp add: char_eval rx_eval py_eval)

lemma eval_slash_gui: "parse_phone_bands_gui mx ''n1/2/3 5G, B41 LTE'' = Inr ([2, 3, 41], [1])"
  by (simp add: char_eval rx_eval py_eval)

lemma eval_paren: "parse_phone_bands mx ''B28A (700)'' = Inr ([28], [])"
  by (simp add: char_eval rx_eval py_eval)

lemma eval_paren_gui: "parse_phone_bands_gui mx ''B28A (700)'' = Inr ([28], [])"
  by (simp add: char_eval rx_eval py_eval)

lemma eval_paren_clean: "sub_empty False paren_rx (strip ''B28A (700)'') = ''B28A''"
  by (simp add: char_eval rx_eval py_eval)

lemma eval_paren_parts: "findall_group True lte_token_rx ''B28A'' = [''28'']"
  by (simp add: char_eval rx_eval py_eval)

lemma eval_gen: "parse_phone_bands mx ''GEN2'' = Inr ([], [2])"
  by (simp add: char_eval rx_eval py_eval)

lemma eval_gen_gui: "parse_phone_bands_gui mx ''GEN2'' = Inr ([], [2])"
  by (simp add: char_eval rx_eval py_eval)

lemma eval_empty: "parse_phone_bands mx [] = Inr ([], [])"
  by (simp add: char_eval rx_eval py_eval)

lemma eval_empty_gui: "parse_phone_bands_gui mx [] = Inr ([], [])"
  by (simp add: char_eval rx_eval py_eval)

lemma eval_zero: "parse_phone_bands mx ''n0'' = Inr ([], [0])"
  by (simp add: char_eval rx_eval py_eval)

lemma eval_zero_gui: "parse_phone_bands_gui mx ''n0'' = Inr ([], [0])"
  by (simp add: char_eval rx_eval py_eval)

lemma eval_seven: "nr_add mx [''7''] {||} = Inr {|7|}" "lte_add mx [''7''] {||} = Inr {|7|}"
  by (simp_all add: char_eval py_eval)

text \<open>A literal of more digits than the limit of the interpreter allows raises \<open>ValueError\<close>.\<close>

lemma digits_tail_all: "list_all is_digit s \<Longrightarrow> digits_tail s"
  by (induction s rule: digits_tail.induct) (auto simp: is_digit_def code_def)

lemma strip_digits: "list_all is_digit s \<Longrightarrow> strip s = s"
proof (cases s rule: rev_cases)
  case Nil
  then show ?thesis by (simp add: strip_def)
next
  case (snoc xs x)
  assume a: "list_all is_digit s"
  have ns: "\<And>c. is_digit c \<Longrightarrow> \<not> is_space c"
    by (auto simp: is_digit_def is_space_def)
  from a snoc have "\<not> is_space x" by (simp add: ns)
  moreover from a have "dropWhile is_space s = s"
    by (cases s) (simp_all add: ns)
  ultimately show ?thesis by (simp add: strip_def snoc)
qed

lemma py_int_too_long:
  assumes "list_all is_digit s" and "640 < length s" and "0 < mx" and "mx < length s"
  shows "py_int mx s = Inl ValueError"
proof -
  from assms(2) obtain c cs where s: "s = c # cs" by (cases s) auto
  with assms(1) have c: "is_digit c" "list_all is_digit cs" by simp_all
  then have sign: "c \<noteq> CHR ''-''" "c \<noteq> CHR ''+''" by (auto simp: is_digit_def code_def)
  have f: "filter is_digit s = s" using assms(1) by (simp add: list_all_iff)
  have st: "strip (c # cs) = c # cs" using strip_digits [OF assms(1)] s by simp
  show ?thesis
    using assms(2-4) c sign f digits_tail_all [OF c(2)]
    by (simp add: py_int_def st s digits_ok_def Let_def)
qed

lemma eval_long: "py_int 640 (replicate 641 CHR ''1'') = Inl ValueError"
  by (rule py_int_too_long) (simp_all add: list_all_iff is_digit_def code_def)

section \<open>The claims\<close>

text \<open>
  C1. For every carrier of the carrier mapping (a dictionary, so each name occurs once),
  \<open>compare_phone_to_carrier\<close> stores a report whose lists hold exactly the bands of
  \<open>lte \<inter> carrier_lte\<close>, \<open>carrier_lte - lte\<close>, \<open>carrier_core_lte \<inter> missing_lte\<close>,
  \<open>nr \<inter> carrier_nr\<close> and \<open>carrier_nr - nr\<close>, each list strictly ascending.
\<close>

theorem compare_report_fields:
  assumes "distinct (map fst carrier_data)"
    and "(carrier_name, bands_info) \<in> set carrier_data"
  shows "\<exists>r. map_of (compare_phone_to_carrier lte nr carrier_data) carrier_name = Some r
    \<and> fset_of_list (supported_lte r) = lte |\<inter>| bands_4g_lte bands_info
    \<and> fset_of_list (missing_lte r) = bands_4g_lte bands_info |-| lte
    \<and> fset_of_list (missing_core_lte r) = bands_core_lte bands_info |\<inter>| fset_of_list (missing_lte r)
    \<and> fset_of_list (supported_nr r) = nr |\<inter>| bands_5g bands_info
    \<and> fset_of_list (missing_nr r) = bands_5g bands_info |-| nr
    \<and> sorted_wrt (<) (supported_lte r) \<and> sorted_wrt (<) (missing_lte r)
    \<and> sorted_wrt (<) (missing_core_lte r) \<and> sorted_wrt (<) (supported_nr r)
    \<and> sorted_wrt (<) (missing_nr r)"
  using compare_lookup [OF assms, of lte nr]
  by (simp add: carrier_report_def Let_def sorted_list_set sorted_list_strict)

theorem compare_report_fields_witness:
  "distinct (map fst get_us_carriers) \<and> (''Verizon'', verizon) \<in> set get_us_carriers
   \<and> (\<exists>r. map_of (compare_phone_to_carrier {|2, 4, 13, 66|} {||} get_us_carriers) ''Verizon'' = Some r
    \<and> fset_of_list (supported_lte r) = {|2, 4, 13, 66|}
    \<and> fset_of_list (missing_lte r) = {|5, 41, 46, 48, 71|}
    \<and> fset_of_list (missing_core_lte r) = {||}
    \<and> fset_of_list (supported_nr r) = {||}
    \<and> fset_of_list (missing_nr r) = {|2, 5, 66, 77, 260, 261|})"
proof -
  have m: "(''Verizon'', verizon) \<in> set get_us_carriers"
    by (simp add: get_us_carriers_def)
  have a: "{|2, 4, 13, 66|} |\<inter>| bands_4g_lte verizon = {|2, 4, 13, 66::int|}"
    by (auto simp: verizon_def)
  have b: "bands_4g_lte verizon |-| {|2, 4, 13, 66|} = {|5, 41, 46, 48, 71::int|}"
    by (auto simp: verizon_def)
  have c: "bands_core_lte verizon |\<inter>| {|5, 41, 46, 48, 71|} = {||}"
    by (auto simp: verizon_def)
  have d: "bands_5g verizon = {|2, 5, 66, 77, 260, 261|}"
    by (simp add: verizon_def)
  from compare_report_fields [OF us_distinct m, of "{|2, 4, 13, 66|}" "{||}"]
  show ?thesis
    unfolding a b by (auto simp: us_distinct m c d)
qed

text \<open>
  C2. The score of a report is \<open>2.0 * |supported_lte| + 1.0 * |supported_nr| -
  2.0 * |missing_core_lte|\<close>, floored at 0; it is never negative.
\<close>

theorem score_formula:
  "calculate_compatibility_score r =
     max 0 (2 * real (length (supported_lte r)) + 1 * real (length (supported_nr r))
            - 2 * real (length (missing_core_lte r)))
   \<and> 0 \<le> calculate_compatibility_score r"
  by (simp add: calculate_compatibility_score_def Let_def)

text \<open>
  C3, as stated: on \<open>n1/2/3 5G, B41 LTE\<close> the result is the LTE list \<open>[41]\<close> and the 5G list
  \<open>[1, 2, 3]\<close>. Neither variant of \<open>parse_phone_bands\<close> returns this.
\<close>

theorem slash_shorthand_counterexample:
  "parse_phone_bands 4300 ''n1/2/3 5G, B41 LTE'' \<noteq> Inr ([41], [1, 2, 3])
   \<and> parse_phone_bands_gui 4300 ''n1/2/3 5G, B41 LTE'' \<noteq> Inr ([41], [1, 2, 3])"
  by (simp add: eval_slash eval_slash_gui)

text \<open>
  C3, amended: on \<open>n1/2/3 5G, B41 LTE\<close> the function of \<open>band_check_perplexity.py\<close> returns
  the 5G list \<open>[1, 2, 3, 5]\<close> (the chain behind the \<open>n\<close> runs over the space into the 5 of
  \<open>5G\<close>) and the LTE list \<open>[2, 3, 41]\<close> (the LTE scan of the line also takes the bare numbers
  2 and 3); the function of \<open>GUI expanded/band_check.py\<close> returns the 5G list \<open>[1]\<close> and the
  same LTE list.
\<close>

theorem slash_shorthand_result:
  "parse_phone_bands mx ''n1/2/3 5G, B41 LTE'' = Inr ([2, 3, 41], [1, 2, 3, 5])
   \<and> parse_phone_bands_gui mx ''n1/2/3 5G, B41 LTE'' = Inr ([2, 3, 41], [1])"
  by (simp add: eval_slash eval_slash_gui)

text \<open>
  C4. For every carrier of the carrier mapping the supported and the missing bands
  partition the carrier's bands, for LTE and for 5G, and the missing core bands are among
  the missing LTE bands and among the carrier's core bands.
\<close>

theorem report_partition:
  assumes "distinct (map fst carrier_data)"
    and "(carrier_name, bands_info) \<in> set carrier_data"
  shows "\<exists>r. map_of (compare_phone_to_carrier lte nr carrier_data) carrier_name = Some r
    \<and> fset_of_list (supported_lte r) |\<inter>| fset_of_list (missing_lte r) = {||}
    \<and> fset_of_list (supported_lte r) |\<union>| fset_of_list (missing_lte r) = bands_4g_lte bands_info
    \<and> fset_of_list (supported_nr r) |\<inter>| fset_of_list (missing_nr r) = {||}
    \<and> fset_of_list (supported_nr r) |\<union>| fset_of_list (missing_nr r) = bands_5g bands_info
    \<and> fset_of_list (missing_core_lte r) |\<subseteq>| fset_of_list (missing_lte r)
    \<and> fset_of_list (missing_core_lte r) |\<subseteq>| bands_core_lte bands_info"
proof -
  let ?r = "carrier_report lte nr bands_info"
  have "map_of (compare_phone_to_carrier lte nr carrier_data) carrier_name = Some ?r"
    by (rule compare_lookup [OF assms])
  moreover have "fset_of_list (supported_lte ?r) |\<inter>| fset_of_list (missing_lte ?r) = {||}"
    by (auto simp: carrier_report_def Let_def sorted_list_set)
  moreover have "fset_of_list (supported_lte ?r) |\<union>| fset_of_list (missing_lte ?r) = bands_4g_lte bands_info"
    by (auto simp: carrier_report_def Let_def sorted_list_set)
  moreover have "fset_of_list (supported_nr ?r) |\<inter>| fset_of_list (missing_nr ?r) = {||}"
    by (auto simp: carrier_report_def Let_def sorted_list_set)
  moreover have "fset_of_list (supported_nr ?r) |\<union>| fset_of_list (missing_nr ?r) = bands_5g bands_info"
    by (auto simp: carrier_report_def Let_def sorted_list_set)
  moreover have "fset_of_list (missing_core_lte ?r) |\<subseteq>| fset_of_list (missing_lte ?r)"
    by (auto simp: carrier_report_def Let_def sorted_list_set)
  moreover have "fset_of_list (missing_core_lte ?r) |\<subseteq>| bands_core_lte bands_info"
    by (auto simp: carrier_report_def Let_def sorted_list_set)
  ultimately show ?thesis by blast
qed

theorem report_partition_witness:
  "distinct (map fst get_us_carriers) \<and> (''AT&T'', att) \<in> set get_us_carriers
   \<and> (\<exists>r. map_of (compare_phone_to_carrier {|2, 4, 13, 66|} {|77|} get_us_carriers) ''AT&T'' = Some r
    \<and> fset_of_list (supported_lte r) |\<inter>| fset_of_list (missing_lte r) = {||}
    \<and> fset_of_list (supported_lte r) |\<union>| fset_of_list (missing_lte r) = {|2, 4, 5, 12, 14, 17, 29, 30, 66, 71|}
    \<and> fset_of_list (supported_nr r) |\<inter>| fset_of_list (missing_nr r) = {||}
    \<and> fset_of_list (supported_nr r) |\<union>| fset_of_list (missing_nr r) = {|2, 5, 66, 77, 260|}
    \<and> fset_of_list (missing_core_lte r) |\<subseteq>| fset_of_list (missing_lte r)
    \<and> fset_of_list (missing_core_lte r) |\<subseteq>| {|2, 4, 12, 17, 29|})"
proof -
  have m: "(''AT&T'', att) \<in> set get_us_carriers"
    by (simp add: get_us_carriers_def)
  from report_partition [OF us_distinct m, of "{|2, 4, 13, 66|}" "{|77|}"]
  have "\<exists>r. map_of (compare_phone_to_carrier {|2, 4, 13, 66|} {|77|} get_us_carriers) ''AT&T'' = Some r
    \<and> fset_of_list (supported_lte r) |\<inter>| fset_of_list (missing_lte r) = {||}
    \<and> fset_of_list (supported_lte r) |\<union>| fset_of_list (missing_lte r) = {|2, 4, 5, 12, 14, 17, 29, 30, 66, 71|}
    \<and> fset_of_list (supported_nr r) |\<inter>| fset_of_list (missing_nr r) = {||}
    \<and> fset_of_list (supported_nr r) |\<union>| fset_of_list (missing_nr r) = {|2, 5, 66, 77, 260|}
    \<and> fset_of_list (missing_core_lte r) |\<subseteq>| fset_of_list (missing_lte r)
    \<and> fset_of_list (missing_core_lte r) |\<subseteq>| {|2, 4, 12, 17, 29|}"
    by (simp add: att_def)
  with us_distinct m show ?thesis by blast
qed

text \<open>
  C5. On \<open>B28A (700)\<close> the LTE list is \<open>[28]\<close>: the annotation in parentheses is removed
  before the scan, which leaves \<open>B28A\<close>, and the scan takes the digits 28 of this token.
\<close>

theorem paren_suffix_result:
  "parse_phone_bands mx ''B28A (700)'' = Inr ([28], [])
   \<and> parse_phone_bands_gui mx ''B28A (700)'' = Inr ([28], [])
   \<and> sub_empty False paren_rx (strip ''B28A (700)'') = ''B28A''
   \<and> findall_group True lte_token_rx ''B28A'' = [''28'']"
  by (simp add: eval_paren eval_paren_gui eval_paren_clean eval_paren_parts)

text \<open>
  C6. On the empty string the functions return two empty lists. Evaluating the empty band
  sets against a carrier of the mapping gives no supported LTE band and all LTE bands of
  the carrier as missing. The missing core bands are the core bands among the carrier's LTE
  bands: all core bands for a carrier whose core bands are LTE bands of its own, as the
  data model has it and as every carrier of the table is.
\<close>

theorem empty_text_result:
  assumes "distinct (map fst carrier_data)"
    and "(carrier_name, bands_info) \<in> set carrier_data"
  shows "parse_phone_bands mx [] = Inr ([], []) \<and> parse_phone_bands_gui mx [] = Inr ([], [])
    \<and> (\<exists>r. map_of (compare_phone_to_carrier (fset_of_list []) (fset_of_list []) carrier_data) carrier_name
            = Some r
        \<and> supported_lte r = []
        \<and> missing_lte r = sorted_list (bands_4g_lte bands_info)
        \<and> missing_core_lte r = sorted_list (bands_core_lte bands_info |\<inter>| bands_4g_lte bands_info)
        \<and> (bands_core_lte bands_info |\<subseteq>| bands_4g_lte bands_info \<longrightarrow>
             missing_core_lte r = sorted_list (bands_core_lte bands_info)))"
proof -
  have "bands_core_lte bands_info |\<subseteq>| bands_4g_lte bands_info \<longrightarrow>
      bands_core_lte bands_info |\<inter>| bands_4g_lte bands_info = bands_core_lte bands_info"
    by auto
  with compare_lookup [OF assms, of "{||}" "{||}"] show ?thesis
    by (simp add: eval_empty eval_empty_gui carrier_report_def Let_def sorted_list_empty)
qed

theorem empty_text_result_witness:
  "distinct (map fst get_us_carriers) \<and> (''T-Mobile'', t_mobile) \<in> set get_us_carriers
   \<and> bands_core_lte t_mobile |\<subseteq>| bands_4g_lte t_mobile
   \<and> parse_phone_bands 4300 [] = Inr ([], [])
   \<and> (\<exists>r. map_of (compare_phone_to_carrier (fset_of_list []) (fset_of_list []) get_us_carriers) ''T-Mobile''
            = Some r
        \<and> supported_lte r = []
        \<and> missing_lte r = sorted_list {|2, 4, 5, 12, 25, 41, 66, 71|}
        \<and> missing_core_lte r = sorted_list {|2, 4, 12, 71|})"
proof -
  have m: "(''T-Mobile'', t_mobile) \<in> set get_us_carriers"
    by (simp add: get_us_carriers_def)
  have c: "bands_core_lte t_mobile |\<subseteq>| bands_4g_lte t_mobile"
    by (simp add: t_mobile_def)
  from empty_text_result [OF us_distinct m, of 4300] c
  have "\<exists>r. map_of (compare_phone_to_carrier (fset_of_list []) (fset_of_list []) get_us_carriers) ''T-Mobile''
            = Some r
        \<and> supported_lte r = []
        \<and> missing_lte r = sorted_list (bands_4g_lte t_mobile)
        \<and> missing_core_lte r = sorted_list (bands_core_lte t_mobile)"
    by auto
  then have "\<exists>r. map_of (compare_phone_to_carrier (fset_of_list []) (fset_of_list []) get_us_carriers) ''T-Mobile''
            = Some r
        \<and> supported_lte r = []
        \<and> missing_lte r = sorted_list {|2, 4, 5, 12, 25, 41, 66, 71|}
        \<and> missing_core_lte r = sorted_list {|2, 4, 12, 71|}"
    by (simp add: t_mobile_def)
  with us_distinct m c eval_empty [of 4300] show ?thesis by blast
qed

text \<open>
  C7. For every text both lists returned by \<open>parse_phone_bands\<close> are strictly increasing,
  and every element of the LTE list lies between 1 and 100.
\<close>

theorem parse_sorted_in_range:
  "(\<exists>lte nr. parse_phone_bands mx text = Inr (lte, nr)
      \<and> sorted_wrt (<) lte \<and> sorted_wrt (<) nr \<and> (\<forall>b\<in>set lte. 1 \<le> b \<and> b \<le> 100))
   \<and> (\<exists>lte nr. parse_phone_bands_gui mx text = Inr (lte, nr)
      \<and> sorted_wrt (<) lte \<and> sorted_wrt (<) nr \<and> (\<forall>b\<in>set lte. 1 \<le> b \<and> b \<le> 100))"
proof
  from parse_result [of mx "text"]
  show "\<exists>lte nr. parse_phone_bands mx text = Inr (lte, nr)
      \<and> sorted_wrt (<) lte \<and> sorted_wrt (<) nr \<and> (\<forall>b\<in>set lte. 1 \<le> b \<and> b \<le> 100)"
    by (auto simp: sorted_list_strict set_sorted_list)
next
  from parse_gui_result [of mx "text"]
  show "\<exists>lte nr. parse_phone_bands_gui mx text = Inr (lte, nr)
      \<and> sorted_wrt (<) lte \<and> sorted_wrt (<) nr \<and> (\<forall>b\<in>set lte. 1 \<le> b \<and> b \<le> 100)"
    by (auto simp: sorted_list_strict set_sorted_list)
qed

theorem parse_sorted_in_range_witness:
  "\<exists>lte nr. parse_phone_bands 4300 ''n1/2/3 5G, B41 LTE'' = Inr (lte, nr)
     \<and> lte = [2, 3, 41] \<and> nr = [1, 2, 3, 5]
     \<and> sorted_wrt (<) lte \<and> sorted_wrt (<) nr \<and> (\<forall>b\<in>set lte. 1 \<le> b \<and> b \<le> 100)"
proof -
  from parse_sorted_in_range [of 4300 "''n1/2/3 5G, B41 LTE''"]
  obtain lte nr where r: "parse_phone_bands 4300 ''n1/2/3 5G, B41 LTE'' = Inr (lte, nr)"
    "sorted_wrt (<) lte" "sorted_wrt (<) nr" "\<forall>b\<in>set lte. 1 \<le> b \<and> b \<le> 100"
    by blast
  from r(1) have "lte = [2, 3, 41]" "nr = [1, 2, 3, 5]"
    by (simp_all add: eval_slash)
  with r show ?thesis by blast
qed

text \<open>
  C8. Both functions return for every input. \<open>parse_phone_bands\<close> returns a pair of lists for
  every text and every digit limit, \<open>compare_phone_to_carrier\<close> returns a report for every
  carrier of the mapping (none for the empty mapping), and a candidate on which \<open>int\<close>
  raises is passed over: the loops go on with the set unchanged.
\<close>

theorem never_raises:
  "(\<exists>lte nr. parse_phone_bands mx text = Inr (lte, nr))
   \<and> (\<exists>lte nr. parse_phone_bands_gui mx text = Inr (lte, nr))
   \<and> fst ` set (compare_phone_to_carrier phone_lte_bands phone_nr_bands carrier_data) = fst ` set carrier_data
   \<and> (py_int mx band_str = Inl e \<longrightarrow>
        nr_add mx (band_str # others) nr_bands = nr_add mx others nr_bands
        \<and> lte_add mx (band_str # others) lte_bands = lte_add mx others lte_bands)"
proof -
  from parse_result [of mx "text"]
  have a: "\<exists>lte nr. parse_phone_bands mx text = Inr (lte, nr)" by blast
  from parse_gui_result [of mx "text"]
  have b: "\<exists>lte nr. parse_phone_bands_gui mx text = Inr (lte, nr)" by blast
  have c: "fst ` set (compare_phone_to_carrier phone_lte_bands phone_nr_bands carrier_data) = fst ` set carrier_data"
    by (simp add: compare_phone_to_carrier_def compare_loop_keys)
  have d: "py_int mx band_str = Inl e \<longrightarrow>
        nr_add mx (band_str # others) nr_bands = nr_add mx others nr_bands
        \<and> lte_add mx (band_str # others) lte_bands = lte_add mx others lte_bands"
    using py_int_cases [of mx band_str] by auto
  from a b c d show ?thesis by blast
qed

theorem never_raises_witness:
  "(\<exists>lte nr. parse_phone_bands 640 ''B28A (700)'' = Inr (lte, nr))
   \<and> fst ` set (compare_phone_to_carrier {||} {||} get_us_carriers) = {''Verizon'', ''AT&T'', ''T-Mobile''}
   \<and> py_int 640 (replicate 641 CHR ''1'') = Inl ValueError
   \<and> nr_add 640 [replicate 641 CHR ''1'', ''7''] {||} = Inr {|7|}
   \<and> lte_add 640 [replicate 641 CHR ''1'', ''7''] {||} = Inr {|7|}"
proof -
  from never_raises [of 640 "''B28A (700)''" "{||}" "{||}" get_us_carriers
      "replicate 641 CHR ''1''" ValueError "[''7'']" "{||}" "{||}"]
  have a: "\<exists>lte nr. parse_phone_bands 640 ''B28A (700)'' = Inr (lte, nr)"
    and b: "fst ` set (compare_phone_to_carrier {||} {||} get_us_carriers) = fst ` set get_us_carriers"
    and c: "nr_add 640 [replicate 641 CHR ''1'', ''7''] {||} = nr_add 640 [''7''] {||}"
    and d: "lte_add 640 [replicate 641 CHR ''1'', ''7''] {||} = lte_add 640 [''7''] {||}"
    using eval_long by blast+
  from b have b': "fst ` set (compare_phone_to_carrier {||} {||} get_us_carriers)
      = {''Verizon'', ''AT&T'', ''T-Mobile''}"
    by (simp add: get_us_carriers_def)
  from c have c': "nr_add 640 [replicate 641 CHR ''1'', ''7''] {||} = Inr {|7|}"
    by (simp only: eval_seven)
  from d have d': "lte_add 640 [replicate 641 CHR ''1'', ''7''] {||} = Inr {|7|}"
    by (simp only: eval_seven)
  from a b' c' d' eval_long show ?thesis by blast
qed

text \<open>
  C9, as stated: every band of both returned lists is greater than zero. On the text \<open>n0\<close>
  both variants return the 5G list \<open>[0]\<close>.
\<close>

theorem positive_bands_counterexample:
  "parse_phone_bands 4300 ''n0'' = Inr ([], [0]) \<and> parse_phone_bands_gui 4300 ''n0'' = Inr ([], [0])"
  by (simp add: eval_zero eval_zero_gui)

text \<open>
  C9, amended: for every text every band of the LTE list is greater than zero (it lies in
  1 to 100) and every band of the 5G list is at least zero; the 5G part has no range check,
  and zero occurs.
\<close>

theorem bands_not_negative:
  "(\<exists>lte nr. parse_phone_bands mx text = Inr (lte, nr)
      \<and> (\<forall>b\<in>set lte. 0 < b) \<and> (\<forall>b\<in>set nr. 0 \<le> b))
   \<and> (\<exists>lte nr. parse_phone_bands_gui mx text = Inr (lte, nr)
      \<and> (\<forall>b\<in>set lte. 0 < b) \<and> (\<forall>b\<in>set nr. 0 \<le> b))"
proof
  from parse_result [of mx "text"]
  show "\<exists>lte nr. parse_phone_bands mx text = Inr (lte, nr)
      \<and> (\<forall>b\<in>set lte. 0 < b) \<and> (\<forall>b\<in>set nr. 0 \<le> b)"
    by (fastforce simp: set_sorted_list)
next
  from parse_gui_result [of mx "text"]
  show "\<exists>lte nr. parse_phone_bands_gui mx text = Inr (lte, nr)
      \<and> (\<forall>b\<in>set lte. 0 < b) \<and> (\<forall>b\<in>set nr. 0 \<le> b)"
    by (fastforce simp: set_sorted_list)
qed

theorem bands_not_negative_witness:
  "\<exists>lte nr. parse_phone_bands_gui 4300 ''n1/2/3 5G, B41 LTE'' = Inr (lte, nr)
     \<and> lte = [2, 3, 41] \<and> nr = [1]
     \<and> (\<forall>b\<in>set lte. 0 < b) \<and> (\<forall>b\<in>set nr. 0 \<le> b)"
proof -
  from bands_not_negative [of 4300 "''n1/2/3 5G, B41 LTE''"]
  obtain lte nr where r: "parse_phone_bands_gui 4300 ''n1/2/3 5G, B41 LTE'' = Inr (lte, nr)"
    "\<forall>b\<in>set lte. 0 < b" "\<forall>b\<in>set nr. 0 \<le> b"
    by blast
  from r(1) have "lte = [2, 3, 41]" "nr = [1]"
    by (simp_all add: eval_slash_gui)
  with r show ?thesis by blast
qed

text \<open>
  C10. The 5G pattern asks for no word boundary before the \<open>n\<close>: on the text \<open>GEN2\<close>, which
  holds no 5G band, both variants return the 5G list \<open>[2]\<close>.
\<close>

theorem no_boundary_before_n:
  "parse_phone_bands mx ''GEN2'' = Inr ([], [2]) \<and> parse_phone_bands_gui mx ''GEN2'' = Inr ([], [2])"
  by (simp add: eval_gen eval_gen_gui)

end
